theory Spec2Isabelle
  imports Main
begin

section \<open>Table definitions (the schema builder of \<open>createTableInstructions\<close>)\<close>

text \<open>
  Every entry of \<open>createTableInstructions\<close> hands a callback to \<open>knex.schema.createTable\<close>;
  the callback is a straight sequence of calls on the table builder. A callback is embedded
  as the list of its calls, in source order. A chained \<open>.defaultTo(v)\<close> is the third
  argument of the column call it is chained to.
\<close>

datatype column_type =
    CString "nat option"   \<comment> \<open>\<open>table.string(name, length)\<close>; \<open>None\<close> when no length is passed\<close>
  | CTimestamp             \<comment> \<open>\<open>table.timestamp(name)\<close>\<close>
  | CDatetime              \<comment> \<open>the columns of \<open>table.timestamps()\<close> when \<open>useTimestamps\<close> is not set\<close>
  | CBoolean               \<comment> \<open>\<open>table.boolean(name)\<close>\<close>
  | CInteger               \<comment> \<open>\<open>table.integer(name)\<close>\<close>
  | CEnu "string list"     \<comment> \<open>\<open>table.enu(name, values)\<close>\<close>
  | CIncrements            \<comment> \<open>the column made by \<open>table.increments()\<close>\<close>

datatype default_value = NoDefault | DefaultBool bool | DefaultNow

datatype on_delete = NoAction | Cascade

datatype builder_call =
    Column string column_type default_value
  | Increments                                        \<comment> \<open>\<open>table.increments()\<close>\<close>
  | Timestamps bool bool                              \<comment> \<open>\<open>table.timestamps(useTimestamps, defaultToNow)\<close>\<close>
  | Primary "string list"                             \<comment> \<open>\<open>table.primary(columns)\<close>\<close>
  | Index "string list"                               \<comment> \<open>\<open>table.index(columns)\<close>\<close>
  | Foreign "string list" on_delete "string list" string
      \<comment> \<open>\<open>table.foreign(cols).onDelete(a).references(refcols).inTable(t)\<close>\<close>

type_synonym table_builder = "builder_call list"

record column =
  col_name :: string
  col_type :: column_type
  col_default :: default_value

record foreign_key =
  fk_columns :: "string list"
  fk_on_delete :: on_delete
  fk_ref_columns :: "string list"
  fk_ref_table :: string

record table_schema =
  columns :: "column list"
  primary_key :: "string list"
  indexes :: "string list list"
  foreign_keys :: "foreign_key list"

definition empty_schema :: table_schema where
  "empty_schema = \<lparr>columns = [], primary_key = [], indexes = [], foreign_keys = []\<rparr>"

definition add_column :: "string \<Rightarrow> column_type \<Rightarrow> default_value \<Rightarrow> table_schema \<Rightarrow> table_schema" where
  "add_column n t d sch =
     sch\<lparr>columns := columns sch @ [\<lparr>col_name = n, col_type = t, col_default = d\<rparr>]\<rparr>"

text \<open>
  What one builder call adds to the table being defined. \<open>increments()\<close> with no argument
  makes the auto-incrementing column \<open>id\<close> and makes it the primary key;
  \<open>timestamps(true, true)\<close> makes the timestamp columns \<open>created_at\<close> and \<open>updated_at\<close>,
  defaulting to the current time.
\<close>

fun apply_call :: "table_schema \<Rightarrow> builder_call \<Rightarrow> table_schema" where
  "apply_call sch (Column n t d) = add_column n t d sch"
| "apply_call sch Increments =
     (add_column ''id'' CIncrements NoDefault sch)\<lparr>primary_key := [''id'']\<rparr>"
| "apply_call sch (Timestamps useTimestamps defaultToNow) =
     (let t = (if useTimestamps then CTimestamp else CDatetime);
          d = (if defaultToNow then DefaultNow else NoDefault)
      in add_column ''updated_at'' t d (add_column ''created_at'' t d sch))"
| "apply_call sch (Primary cs) = sch\<lparr>primary_key := cs\<rparr>"
| "apply_call sch (Index cs) = sch\<lparr>indexes := indexes sch @ [cs]\<rparr>"
| "apply_call sch (Foreign cs a rcs t) =
     sch\<lparr>foreign_keys := foreign_keys sch @
       [\<lparr>fk_columns = cs, fk_on_delete = a, fk_ref_columns = rcs, fk_ref_table = t\<rparr>]\<rparr>"

definition build :: "table_builder \<Rightarrow> table_schema" where
  "build calls = foldl apply_call empty_schema calls"

definition column_named :: "table_schema \<Rightarrow> string \<Rightarrow> column option" where
  "column_named sch n = find (\<lambda>c. col_name c = n) (columns sch)"

subsection \<open>The five callbacks\<close>

definition hearings_builder :: table_builder where
  "hearings_builder =
     [Column ''defendant'' (CString (Some 100)) NoDefault,
      Column ''date'' CTimestamp NoDefault,
      Column ''room'' (CString (Some 100)) NoDefault,
      Column ''case_id'' (CString (Some 100)) NoDefault,
      Column ''type'' (CString (Some 100)) NoDefault,
      Primary [''case_id'', ''date''],
      Index [''case_id'']]"

definition requests_builder :: table_builder where
  "requests_builder =
     [Timestamps True True,
      Column ''case_id'' (CString (Some 100)) NoDefault,
      Column ''phone'' (CString (Some 100)) NoDefault,
      Column ''known_case'' CBoolean (DefaultBool False),
      Column ''active'' CBoolean (DefaultBool True),
      Primary [''case_id'', ''phone'']]"

definition notifications_builder :: table_builder where
  "notifications_builder =
     [Column ''created_at'' CTimestamp DefaultNow,
      Column ''case_id'' (CString None) NoDefault,
      Column ''phone'' (CString None) NoDefault,
      Column ''event_date'' CTimestamp NoDefault,
      Column ''type'' (CEnu [''reminder'', ''matched'', ''expired'']) NoDefault,
      Column ''error'' (CString None) NoDefault,
      Foreign [''case_id'', ''phone''] Cascade [''case_id'', ''phone''] ''requests'']"

definition log_runners_builder :: table_builder where
  "log_runners_builder =
     [Increments,
      Column ''runner'' (CEnu [''send_reminder'', ''send_expired'', ''send_matched'', ''load'']) NoDefault,
      Column ''count'' CInteger NoDefault,
      Column ''error_count'' CInteger NoDefault,
      Column ''date'' CTimestamp DefaultNow]"

definition log_hits_builder :: table_builder where
  "log_hits_builder =
     [Column ''time'' CTimestamp DefaultNow,
      Column ''path'' (CString None) NoDefault,
      Column ''method'' (CString None) NoDefault,
      Column ''status_code'' (CString None) NoDefault,
      Column ''phone'' (CString None) NoDefault,
      Column ''body'' (CString None) NoDefault,
      Column ''action'' (CString None) NoDefault]"

text \<open>
  An entry of \<open>createTableInstructions\<close> is a procedure that checks \<open>hasTable(t)\<close> and, when
  the table is absent, runs \<open>createTable(t, callback)\<close>. It is determined by the table
  name \<open>t\<close> it names and by its callback. The entries are listed in source order.
\<close>

type_synonym instruction = "string \<times> table_builder"

definition createTableInstructions_entries :: "(string \<times> instruction) list" where
  "createTableInstructions_entries =
     [(''hearings'', (''hearings'', hearings_builder)),
      (''requests'', (''requests'', requests_builder)),
      (''notifications'', (''notifications'', notifications_builder)),
      (''log_runners'', (''log_runners'', log_runners_builder)),
      (''log_hits'', (''log_hits'', log_hits_builder))]"

definition createTableInstructions :: "string \<Rightarrow> instruction option" where
  "createTableInstructions = map_of createTableInstructions_entries"

definition schema_of :: "string \<Rightarrow> table_schema option" where
  "schema_of name = map_option (\<lambda>i. build (snd i)) (createTableInstructions name)"

definition primary_key_of :: "string \<Rightarrow> string list option" where
  "primary_key_of name = map_option primary_key (schema_of name)"

definition indexes_of :: "string \<Rightarrow> string list list option" where
  "indexes_of name = map_option indexes (schema_of name)"

definition foreign_keys_of :: "string \<Rightarrow> foreign_key list option" where
  "foreign_keys_of name = map_option foreign_keys (schema_of name)"

definition column_of :: "string \<Rightarrow> string \<Rightarrow> column option" where
  "column_of name c = (case schema_of name of None \<Rightarrow> None | Some sch \<Rightarrow> column_named sch c)"

section \<open>The database, the connection pool and the log\<close>

type_synonym row = "(string \<times> string) list"

datatype error =
    RelationExists string          \<comment> \<open>\<open>create table\<close> of a table that exists\<close>
  | FkTargetMissing string string  \<comment> \<open>a foreign key of the first table names the second, which is absent\<close>
  | DdlRejected string             \<comment> \<open>the database rejects a schema statement for another reason (privilege, ...)\<close>
  | NoSuchTable string             \<comment> \<open>a statement on a table that does not exist\<close>
  | InsertRejected string          \<comment> \<open>the database rejects an INSERT statement (constraint violation, ...)\<close>
  | TransactionComplete            \<comment> \<open>commit or rollback of a transaction that has completed\<close>
  | TypeError string               \<comment> \<open>a JavaScript \<open>TypeError\<close>\<close>

datatype log_message =
    NoInstructions string   \<comment> \<open>\<open>No Table Creation Instructions found for table "t".\<close>\<close>
  | AlreadyExists string    \<comment> \<open>\<open>Table "t" already exists.  Will not create.\<close>\<close>
  | TableCreated string     \<comment> \<open>\<open>Table created: "t"\<close>\<close>
  | BatchInserting nat      \<comment> \<open>\<open>batch inserting n rows\<close>\<close>
  | ErrorObject error       \<comment> \<open>\<open>logger.error(err)\<close>\<close>

text \<open>
  The statements \<open>knex.schema.createTable(t, callback)\<close> sends to the database. The
  column calls of the callback (\<open>string\<close>, \<open>timestamp\<close>, \<open>increments\<close>, ...) make the one
  \<open>create table\<close> statement; each of \<open>primary\<close>, \<open>index\<close> and \<open>foreign\<close> makes a statement
  of its own (\<open>alter table ... add constraint\<close>, \<open>create index\<close>), sent after it.
\<close>

datatype statement =
    CreateTableStmt string table_schema
  | AlterTableStmt string builder_call

fun statement_table :: "statement \<Rightarrow> string" where
  "statement_table (CreateTableStmt t sch) = t"
| "statement_table (AlterTableStmt t c) = t"

text \<open>
  What the module does to its collaborators, in the order it does it: the statements knex
  sends to the database and the calls on the logger. A \<open>Ddl\<close> event records the statement,
  the names of the tables that exist when it runs, and its outcome.
\<close>

datatype event =
    HasTable string bool
  | Ddl statement "string list" "error option"
  | Begin
  | Insert string "row list" "error option"
  | Commit
  | Rollback
  | LogDebug log_message
  | LogError log_message

record database =
  tables :: "(string \<times> table_schema) list"
  contents :: "string \<Rightarrow> row list"

record connection_pool =
  idle :: "nat list"
  used :: "nat list"
  destroyed :: bool

record state =
  db :: database
  pool :: connection_pool
  trace :: "event list"

text \<open>
  knex, the database behind it and the connection pool are a library that the module
  calls. The calls the module makes are modelled by what they do to the database, to the
  pool and to the promise they return.

  The fault model. The database may reject any schema statement and any INSERT
  statement; whether it does is not decided by this module, so it is a parameter, and it may
  depend on everything that has happened so far. Existence checks, BEGIN, COMMIT and
  ROLLBACK succeed, and so does taking a connection for them.
\<close>

record environment =
  ddl_fault :: "state \<Rightarrow> statement \<Rightarrow> bool"
  insert_fault :: "state \<Rightarrow> string \<Rightarrow> row list \<Rightarrow> bool"

definition table_names :: "state \<Rightarrow> string list" where
  "table_names s = map fst (tables (db s))"

definition emit :: "event \<Rightarrow> state \<Rightarrow> state" where
  "emit e s = s\<lparr>trace := trace s @ [e]\<rparr>"

definition new_events :: "state \<Rightarrow> state \<Rightarrow> event list" where
  "new_events s s' = drop (length (trace s)) (trace s')"

subsection \<open>Promises\<close>

text \<open>
  An asynchronous operation takes the state and gives the settled outcome of its promise
  (\<open>Inl\<close> a rejection, \<open>Inr\<close> the value) with the state it leaves. \<open>p.then(f)\<close> runs \<open>f\<close> on
  the value of a resolved \<open>p\<close> and passes a rejection on; \<open>p.catch(f)\<close> runs \<open>f\<close> on the
  error of a rejected \<open>p\<close> and passes a value on.
\<close>

definition then_p :: "('a \<Rightarrow> 's \<Rightarrow> (error + 'b) \<times> 's) \<Rightarrow> (error + 'a) \<times> 's \<Rightarrow> (error + 'b) \<times> 's" where
  "then_p f p = (case p of (Inr v, s) \<Rightarrow> f v s | (Inl e, s) \<Rightarrow> (Inl e, s))"

definition catch_p :: "(error \<Rightarrow> 's \<Rightarrow> (error + 'a) \<times> 's) \<Rightarrow> (error + 'a) \<times> 's \<Rightarrow> (error + 'a) \<times> 's" where
  "catch_p f p = (case p of (Inl e, s) \<Rightarrow> f e s | (Inr v, s) \<Rightarrow> (Inr v, s))"

text \<open>
  Modelled from the spec: the logger (the module \<open>../logger\<close>) is not among the sources;
  the spec has it as a logging sink with the severities debug and error. A call records
  its message in the trace and returns nothing.
\<close>

definition logger_debug :: "log_message \<Rightarrow> state \<Rightarrow> (error + unit) \<times> state" where
  "logger_debug m s = (Inr (), emit (LogDebug m) s)"

definition logger_error :: "log_message \<Rightarrow> state \<Rightarrow> (error + unit) \<times> state" where
  "logger_error m s = (Inr (), emit (LogError m) s)"

subsection \<open>The schema calls of knex\<close>

definition knex_schema_hasTable :: "string \<Rightarrow> state \<Rightarrow> (error + bool) \<times> state" where
  "knex_schema_hasTable name s =
     (let exists = name \<in> set (table_names s)
      in (Inr exists, emit (HasTable name exists) s))"

text \<open>
  knex sends the statements of a \<open>createTable\<close> one after the other, each committed on
  its own, and stops at the first the database rejects: the promise is rejected with that
  error and the statements already run stay done. So when the foreign key of a new table
  cannot be added, the table has been created and stays, without the key.
\<close>

fun inline :: "builder_call \<Rightarrow> bool" where
  "inline (Column n t d) = True"
| "inline Increments = True"
| "inline (Timestamps useTimestamps defaultToNow) = True"
| "inline (Primary cs) = False"
| "inline (Index cs) = False"
| "inline (Foreign cs a rcs t) = False"

definition statements_of :: "string \<Rightarrow> table_builder \<Rightarrow> statement list" where
  "statements_of name callback =
     CreateTableStmt name (build (filter inline callback))
     # map (AlterTableStmt name) (filter (\<lambda>c. \<not> inline c) callback)"

fun missing_reference :: "builder_call \<Rightarrow> string list \<Rightarrow> string option" where
  "missing_reference (Foreign cs a rcs t) present = (if t \<in> set present then None else Some t)"
| "missing_reference c present = None"

text \<open>
  \<open>create table\<close> fails when the table exists; a statement on a table fails when the table
  does not exist, and adding a foreign key fails when the table it references does not
  exist; any statement fails when the database rejects it. A failed statement changes
  nothing.
\<close>

definition statement_outcome :: "environment \<Rightarrow> statement \<Rightarrow> state \<Rightarrow> error option" where
  "statement_outcome env st s =
     (case st of
        CreateTableStmt name sch \<Rightarrow>
          if name \<in> set (table_names s) then Some (RelationExists name)
          else if ddl_fault env s st then Some (DdlRejected name)
          else None
      | AlterTableStmt name c \<Rightarrow>
          if name \<notin> set (table_names s) then Some (NoSuchTable name)
          else (case missing_reference c (table_names s) of
                  Some t \<Rightarrow> Some (FkTargetMissing name t)
                | None \<Rightarrow> if ddl_fault env s st then Some (DdlRejected name) else None))"

definition add_table :: "string \<Rightarrow> table_schema \<Rightarrow> state \<Rightarrow> state" where
  "add_table name sch s = s\<lparr>db := (db s)\<lparr>tables := tables (db s) @ [(name, sch)]\<rparr>\<rparr>"

definition alter_table :: "string \<Rightarrow> (table_schema \<Rightarrow> table_schema) \<Rightarrow> state \<Rightarrow> state" where
  "alter_table name f s =
     s\<lparr>db := (db s)\<lparr>tables :=
       map (\<lambda>entry. if fst entry = name then (fst entry, f (snd entry)) else entry)
         (tables (db s))\<rparr>\<rparr>"

fun apply_statement :: "statement \<Rightarrow> state \<Rightarrow> state" where
  "apply_statement (CreateTableStmt name sch) s = add_table name sch s"
| "apply_statement (AlterTableStmt name c) s = alter_table name (\<lambda>sch. apply_call sch c) s"

definition exec_statement :: "environment \<Rightarrow> statement \<Rightarrow> state \<Rightarrow> (error + unit) \<times> state" where
  "exec_statement env st s =
     (let outcome = statement_outcome env st s;
          s1 = emit (Ddl st (table_names s) outcome) s
      in case outcome of
           Some e \<Rightarrow> (Inl e, s1)
         | None \<Rightarrow> (Inr (), apply_statement st s1))"

fun exec_statements :: "environment \<Rightarrow> statement list \<Rightarrow> state \<Rightarrow> (error + unit) \<times> state" where
  "exec_statements env [] s = (Inr (), s)"
| "exec_statements env (st # sts) s =
     then_p (\<lambda>_. exec_statements env sts) (exec_statement env st s)"

definition knex_schema_createTable :: "environment \<Rightarrow> string \<Rightarrow> table_builder \<Rightarrow> state \<Rightarrow> (error + unit) \<times> state" where
  "knex_schema_createTable env name callback s =
     exec_statements env (statements_of name callback) s"

text \<open>
  Calling an entry of \<open>createTableInstructions\<close>:
  \<open>knex.schema.hasTable(t).then((exists) => { if (!exists) return knex.schema.createTable(t, callback) })\<close>.
\<close>

definition run_instruction :: "environment \<Rightarrow> instruction \<Rightarrow> state \<Rightarrow> (error + unit) \<times> state" where
  "run_instruction env i s =
     then_p (\<lambda>exists s'. if \<not> exists then knex_schema_createTable env (fst i) (snd i) s'
                          else (Inr (), s'))
       (knex_schema_hasTable (fst i) s)"

section \<open>createTable\<close>

text \<open>
  \<open>createTableInstructions[table]\<close> is a property read on an object literal: it finds the
  object's own entries and, for any other key, what the object inherits from
  \<open>Object.prototype\<close>. The inherited values are functions (and, for \<open>__proto__\<close>, an
  object), so they are truthy; called as \<open>createTableInstructions[table]()\<close> none of them
  returns a promise, so the \<open>.then\<close> chained to the call raises a \<open>TypeError\<close>.
\<close>

datatype property = Absent | Own instruction | Inherited

definition object_prototype_properties :: "string list" where
  "object_prototype_properties =
     [''constructor'', ''__defineGetter__'', ''__defineSetter__'', ''hasOwnProperty'',
      ''__lookupGetter__'', ''__lookupSetter__'', ''isPrototypeOf'', ''propertyIsEnumerable'',
      ''toString'', ''valueOf'', ''__proto__'', ''toLocaleString'']"

definition get_property :: "string \<Rightarrow> property" where
  "get_property k =
     (case createTableInstructions k of
        Some i \<Rightarrow> Own i
      | None \<Rightarrow> if k \<in> set object_prototype_properties then Inherited else Absent)"

definition truthy :: "property \<Rightarrow> bool" where
  "truthy p = (p \<noteq> Absent)"

definition call_instruction :: "environment \<Rightarrow> string \<Rightarrow> state \<Rightarrow> (error + unit) \<times> state" where
  "call_instruction env table s =
     (case get_property table of
        Own i \<Rightarrow> run_instruction env i s
      | _ \<Rightarrow> (Inl (TypeError ''createTableInstructions[table](...).then is not a function''), s))"

text \<open>What a call of \<open>createTable\<close> returns: the boolean \<open>false\<close>, or a promise.\<close>

datatype returned = ReturnsFalse | ReturnsPromise "error + unit"

definition createTable :: "environment \<Rightarrow> string \<Rightarrow> state \<Rightarrow> returned \<times> state" where
  "createTable env table s =
     (if \<not> truthy (get_property table)
      then (ReturnsFalse, snd (logger_error (NoInstructions table) s))
      else let p = then_p (\<lambda>exists s'.
                      if exists then logger_debug (AlreadyExists table) s'
                      else then_p (\<lambda>_. logger_debug (TableCreated table))
                             (call_instruction env table s'))
                     (knex_schema_hasTable table s)
           in (ReturnsPromise (fst p), snd p))"

section \<open>ensureTablesExist\<close>

definition provisioning_order :: "string list" where
  "provisioning_order = [''requests'', ''hearings'', ''notifications'', ''log_runners'', ''log_hits'']"

text \<open>
  The callback of the reduction, \<open>createTable(v).catch(err => logger.error(err))\<close>. When
  \<open>createTable\<close> returns \<open>false\<close>, \<open>false.catch\<close> is not a function: the callback throws a
  \<open>TypeError\<close>, which rejects the promise of the \<open>then\<close> it runs in.
\<close>

definition create_and_catch :: "environment \<Rightarrow> string \<Rightarrow> state \<Rightarrow> (error + unit) \<times> state" where
  "create_and_catch env v s =
     (case createTable env v s of
        (ReturnsFalse, s1) \<Rightarrow> (Inl (TypeError ''createTable(...).catch is not a function''), s1)
      | (ReturnsPromise r, s1) \<Rightarrow> catch_p (\<lambda>err. logger_error (ErrorObject err)) (r, s1))"

definition ensure_from :: "environment \<Rightarrow> string list \<Rightarrow> (error + unit) \<times> state \<Rightarrow> (error + unit) \<times> state" where
  "ensure_from env vs p0 = foldl (\<lambda>p v. then_p (\<lambda>_. create_and_catch env v) p) p0 vs"

definition ensureTablesExist :: "environment \<Rightarrow> state \<Rightarrow> (error + unit) \<times> state" where
  "ensureTablesExist env s = ensure_from env provisioning_order (Inr (), s)"

section \<open>batchInsert\<close>

text \<open>
  The chunks of a batch: consecutive slices of \<open>n\<close> rows, the last one possibly shorter
  (lodash's \<open>chunk\<close>, which knex's batch insert uses; it gives no chunk for a size below 1).
\<close>

function chunk :: "nat \<Rightarrow> 'a list \<Rightarrow> 'a list list" where
  "chunk n xs = (if n = 0 \<or> xs = [] then [] else take n xs # chunk n (drop n xs))"
  by pat_completeness auto
termination
  by (relation "measure (\<lambda>(n, xs). length xs)") auto

declare chunk.simps [simp del]

text \<open>One INSERT statement, run on the connection of the transaction.\<close>

definition insert_outcome :: "environment \<Rightarrow> string \<Rightarrow> row list \<Rightarrow> state \<Rightarrow> error option" where
  "insert_outcome env table rows s =
     (if table \<notin> set (table_names s) then Some (NoSuchTable table)
      else if insert_fault env s table rows then Some (InsertRejected table)
      else None)"

definition add_rows :: "string \<Rightarrow> row list \<Rightarrow> state \<Rightarrow> state" where
  "add_rows table rows s =
     s\<lparr>db := (db s)\<lparr>contents := (contents (db s))(table := contents (db s) table @ rows)\<rparr>\<rparr>"

definition knex_insert :: "environment \<Rightarrow> string \<Rightarrow> row list \<Rightarrow> state \<Rightarrow> (error + unit) \<times> state" where
  "knex_insert env table rows s =
     (let outcome = insert_outcome env table rows s;
          s1 = emit (Insert table rows outcome) s
      in case outcome of
           Some e \<Rightarrow> (Inl e, s1)
         | None \<Rightarrow> (Inr (), add_rows table rows s1))"

fun insert_chunks :: "environment \<Rightarrow> string \<Rightarrow> row list list \<Rightarrow> state \<Rightarrow> (error + unit) \<times> state" where
  "insert_chunks env table [] s = (Inr (), s)"
| "insert_chunks env table (c # cs) s =
     then_p (\<lambda>_. insert_chunks env table cs) (knex_insert env table c s)"

text \<open>
  \<open>trx.batchInsert(table, rows, chunkSize)\<close>: knex refuses a chunk size below 1 with a
  \<open>TypeError\<close>, and otherwise inserts the chunks one after the other on the transaction it
  is called on, stopping at the first that fails. The \<open>TypeError\<close> is thrown inside the
  transaction's container; knex treats what the container throws as it treats a rejected
  promise of the container, so it is a rejection here.
\<close>

definition trx_batchInsert :: "environment \<Rightarrow> string \<Rightarrow> row list \<Rightarrow> int \<Rightarrow> state \<Rightarrow> (error + unit) \<times> state" where
  "trx_batchInsert env table rows chunkSize s =
     (if chunkSize < 1 then (Inl (TypeError ''Invalid chunkSize''), s)
      else insert_chunks env table (chunk (nat chunkSize) rows) s)"

subsection \<open>Transactions\<close>

text \<open>
  A transaction works on the state of its connection. It completes once: by \<open>trx.commit\<close>,
  by \<open>trx.rollback\<close>, or, when the container's promise settles with the transaction still
  pending, by the commit (on a value) or rollback (on a rejection) that knex then runs.
  A committed transaction leaves its writes in the database and resolves the promise of
  \<open>knex.transaction\<close>; a rolled-back one leaves the database as it was when the transaction
  began and rejects that promise with the error given to the rollback.
\<close>

datatype trx_status = Pending | Committed | RolledBack error

record trx =
  work :: state
  status :: trx_status

definition on_trx :: "(state \<Rightarrow> 'r \<times> state) \<Rightarrow> trx \<Rightarrow> 'r \<times> trx" where
  "on_trx f t = (case f (work t) of (r, s') \<Rightarrow> (r, t\<lparr>work := s'\<rparr>))"

definition trx_commit :: "'a \<Rightarrow> trx \<Rightarrow> (error + 'a) \<times> trx" where
  "trx_commit v t =
     (case status t of
        Pending \<Rightarrow> (Inr v, t\<lparr>work := emit Commit (work t), status := Committed\<rparr>)
      | _ \<Rightarrow> (Inl TransactionComplete, t))"

definition trx_rollback :: "error \<Rightarrow> trx \<Rightarrow> (error + 'a) \<times> trx" where
  "trx_rollback e t =
     (case status t of
        Pending \<Rightarrow> (Inl e, t\<lparr>work := emit Rollback (work t), status := RolledBack e\<rparr>)
      | _ \<Rightarrow> (Inl TransactionComplete, t))"

definition settle :: "(error + 'a) \<times> trx \<Rightarrow> trx" where
  "settle p =
     (case p of (r, t) \<Rightarrow>
        (case status t of
           Pending \<Rightarrow> (case r of Inr v \<Rightarrow> snd (trx_commit v t) | Inl e \<Rightarrow> snd (trx_rollback e t :: (error + 'a) \<times> trx))
         | _ \<Rightarrow> t))"

definition knex_transaction :: "(trx \<Rightarrow> (error + 'a) \<times> trx) \<Rightarrow> state \<Rightarrow> (error + unit) \<times> state" where
  "knex_transaction container s =
     (let t = settle (container \<lparr>work = emit Begin s, status = Pending\<rparr>)
      in case status t of
           RolledBack e \<Rightarrow> (Inl e, (work t)\<lparr>db := db s\<rparr>)
         | _ \<Rightarrow> (Inr (), work t))"

definition batchInsert :: "environment \<Rightarrow> string \<Rightarrow> row list \<Rightarrow> int \<Rightarrow> state \<Rightarrow> (error + unit) \<times> state" where
  "batchInsert env table rows chunkSize s =
     knex_transaction
       (\<lambda>trx. catch_p trx_rollback
                 (then_p trx_commit (on_trx (trx_batchInsert env table rows chunkSize) trx)))
       (snd (logger_debug (BatchInserting (length rows)) s))"

section \<open>closeConnection\<close>







section \<open>Reading the trace\<close>

fun table_of_error :: "error \<Rightarrow> string" where
  "table_of_error (RelationExists t) = t"
| "table_of_error (FkTargetMissing t r) = t"
| "table_of_error (DdlRejected t) = t"
| "table_of_error (NoSuchTable t) = t"
| "table_of_error (InsertRejected t) = t"
| "table_of_error TransactionComplete = []"
| "table_of_error (TypeError m) = []"

fun table_of_message :: "log_message \<Rightarrow> string" where
  "table_of_message (NoInstructions t) = t"
| "table_of_message (AlreadyExists t) = t"
| "table_of_message (TableCreated t) = t"
| "table_of_message (BatchInserting n) = []"
| "table_of_message (ErrorObject e) = table_of_error e"

text \<open>The table an event is about (the empty name for an event about none).\<close>

fun table_of :: "event \<Rightarrow> string" where
  "table_of (HasTable t b) = t"
| "table_of (Ddl st present outcome) = statement_table st"
| "table_of (Insert t rows outcome) = t"
| "table_of (LogDebug m) = table_of_message m"
| "table_of (LogError m) = table_of_message m"
| "table_of Begin = []"
| "table_of Commit = []"
| "table_of Rollback = []"

fun is_create :: "event \<Rightarrow> bool" where
  "is_create (Ddl (CreateTableStmt t sch) present outcome) = True"
| "is_create e = False"

fun is_log :: "event \<Rightarrow> bool" where
  "is_log (LogDebug m) = True"
| "is_log (LogError m) = True"
| "is_log e = False"

text \<open>The \<open>create table\<close> statements for a table, and the log entries about a table.\<close>

definition create_attempts :: "string \<Rightarrow> event list \<Rightarrow> event list" where
  "create_attempts v evs = filter (\<lambda>e. is_create e \<and> table_of e = v) evs"

definition log_entries :: "string \<Rightarrow> event list \<Rightarrow> event list" where
  "log_entries v evs = filter (\<lambda>e. is_log e \<and> table_of e = v) evs"

section \<open>Concrete databases and environments\<close>

definition fresh_state :: state where
  "fresh_state =
     \<lparr>db = \<lparr>tables = [], contents = (\<lambda>t. [])\<rparr>,
      pool = \<lparr>idle = [1, 2], used = [3], destroyed = False\<rparr>,
      trace = []\<rparr>"

definition no_faults :: environment where
  "no_faults = \<lparr>ddl_fault = (\<lambda>s st. False), insert_fault = (\<lambda>s t rows. False)\<rparr>"

text \<open>A database that refuses to create \<open>requests\<close>, and one that refuses the row \<open>bad\<close>.\<close>

definition requests_denied :: environment where
  "requests_denied =
     \<lparr>ddl_fault = (\<lambda>s st. case st of CreateTableStmt t sch \<Rightarrow> t = ''requests''
                                      | AlterTableStmt t c \<Rightarrow> False),
      insert_fault = (\<lambda>s t rows. False)\<rparr>"





section \<open>The schema registry\<close>

lemma schema_of_registered:
  "schema_of ''hearings'' = Some (build hearings_builder)"
  "schema_of ''requests'' = Some (build requests_builder)"
  "schema_of ''notifications'' = Some (build notifications_builder)"
  "schema_of ''log_runners'' = Some (build log_runners_builder)"
  "schema_of ''log_hits'' = Some (build log_hits_builder)"
  by (simp_all add: schema_of_def createTableInstructions_def createTableInstructions_entries_def)

lemma dom_createTableInstructions:
  "dom createTableInstructions =
     {''requests'', ''hearings'', ''notifications'', ''log_runners'', ''log_hits''}"
  unfolding createTableInstructions_def createTableInstructions_entries_def
  by (simp add: dom_map_of_conv_image_fst insert_commute)

text \<open>
  Claim C6. The registry has exactly the five entries \<open>requests\<close>, \<open>hearings\<close>,
  \<open>notifications\<close>, \<open>log_runners\<close> and \<open>log_hits\<close>. \<open>hearings\<close> has the primary key
  \<open>(case_id, date)\<close> and an index on \<open>case_id\<close>; \<open>requests\<close> has the primary key
  \<open>(case_id, phone)\<close>, \<open>known_case\<close> defaulting to false and \<open>active\<close> defaulting to true;
  \<open>notifications\<close> has no primary key, the foreign key \<open>(case_id, phone)\<close> into
  \<open>requests(case_id, phone)\<close> deleting in cascade, and \<open>type\<close> an enum of \<open>reminder\<close>,
  \<open>matched\<close>, \<open>expired\<close>; \<open>log_runners\<close> has the auto-incrementing primary key \<open>id\<close> and
  \<open>runner\<close> an enum of \<open>send_reminder\<close>, \<open>send_expired\<close>, \<open>send_matched\<close>, \<open>load\<close>.
\<close>

theorem registry_shapes:
  "dom createTableInstructions =
     {''requests'', ''hearings'', ''notifications'', ''log_runners'', ''log_hits''}
   \<and> primary_key_of ''hearings'' = Some [''case_id'', ''date'']
   \<and> indexes_of ''hearings'' = Some [[''case_id'']]
   \<and> primary_key_of ''requests'' = Some [''case_id'', ''phone'']
   \<and> map_option col_default (column_of ''requests'' ''known_case'') = Some (DefaultBool False)
   \<and> map_option col_default (column_of ''requests'' ''active'') = Some (DefaultBool True)
   \<and> primary_key_of ''notifications'' = Some []
   \<and> foreign_keys_of ''notifications'' =
        Some [\<lparr>fk_columns = [''case_id'', ''phone''], fk_on_delete = Cascade,
               fk_ref_columns = [''case_id'', ''phone''], fk_ref_table = ''requests''\<rparr>]
   \<and> map_option col_type (column_of ''notifications'' ''type'') =
        Some (CEnu [''reminder'', ''matched'', ''expired''])
   \<and> primary_key_of ''log_runners'' = Some [''id'']
   \<and> map_option col_type (column_of ''log_runners'' ''id'') = Some CIncrements
   \<and> map_option col_type (column_of ''log_runners'' ''runner'') =
        Some (CEnu [''send_reminder'', ''send_expired'', ''send_matched'', ''load''])"
  unfolding primary_key_of_def indexes_of_def foreign_keys_of_def column_of_def
  apply (simp only: schema_of_registered dom_createTableInstructions)
  apply (simp add: build_def hearings_builder_def requests_builder_def notifications_builder_def
      log_runners_builder_def empty_schema_def add_column_def column_named_def)
  done

section \<open>Batch inserts\<close>

lemma chunk_Nil [simp]: "chunk n [] = []"
  by (simp add: chunk.simps)

text \<open>
  Claim C7, as the code has it. For every table name and every chunk size of at least 1, a
  batch insert of no rows resolves: the transaction begins and commits with no statement
  in between, and the database is as it was.
\<close>

theorem batchInsert_empty:
  "1 \<le> n \<Longrightarrow>
     fst (batchInsert env table [] n s) = Inr ()
     \<and> db (snd (batchInsert env table [] n s)) = db s
     \<and> new_events s (snd (batchInsert env table [] n s)) =
         [LogDebug (BatchInserting 0), Begin, Commit]"
  by (simp add: batchInsert_def knex_transaction_def settle_def catch_p_def then_p_def on_trx_def
      trx_batchInsert_def trx_commit_def logger_debug_def emit_def new_events_def)

theorem batchInsert_empty_witness:
  "(1::int) \<le> 3
   \<and> fst (batchInsert no_faults ''requests'' [] 3 fresh_state) = Inr ()
   \<and> contents (db (snd (batchInsert no_faults ''requests'' [] 3 fresh_state))) ''requests'' = []"
  using batchInsert_empty [of 3 no_faults "''requests''" fresh_state]
  by (simp add: fresh_state_def)

text \<open>
  With the chunk size 0 the batch insert of no rows does not resolve: knex refuses the
  chunk size, the transaction is rolled back and the promise is rejected.
\<close>

theorem batchInsert_empty_chunk_size_0:
  "fst (batchInsert no_faults ''requests'' [] 0 fresh_state) = Inl (TypeError ''Invalid chunkSize'')"
  by (simp add: batchInsert_def knex_transaction_def settle_def catch_p_def then_p_def on_trx_def
      trx_batchInsert_def trx_rollback_def logger_debug_def emit_def)

section \<open>Creating one table\<close>

lemma get_property_registered:
  "createTableInstructions v = Some i \<Longrightarrow> get_property v = Own i"
  by (simp add: get_property_def)

lemma get_property_constructor: "get_property ''constructor'' = Inherited"
  by (simp add: get_property_def createTableInstructions_def createTableInstructions_entries_def
      object_prototype_properties_def)

text \<open>
  Claim C5 at the name \<open>constructor\<close>. The registry has no entry of that name, but the
  property read finds \<open>Object.prototype.constructor\<close>, which is truthy: \<open>createTable\<close> logs
  no error and does not return \<open>false\<close>. It checks the database for a table of that name
  and returns a promise, which is rejected with a \<open>TypeError\<close>.
\<close>

theorem createTable_inherited_key:
  "createTableInstructions ''constructor'' = None
   \<and> fst (createTable no_faults ''constructor'' fresh_state) =
       ReturnsPromise (Inl (TypeError ''createTableInstructions[table](...).then is not a function''))
   \<and> trace (snd (createTable no_faults ''constructor'' fresh_state)) = [HasTable ''constructor'' False]"
  by (simp add: createTable_def get_property_constructor truthy_def then_p_def knex_schema_hasTable_def
      call_instruction_def table_names_def fresh_state_def emit_def
      createTableInstructions_def createTableInstructions_entries_def)

section \<open>What a call leaves in the state\<close>

lemma table_names_emit [simp]: "table_names (emit e s) = table_names s"
  by (simp add: table_names_def emit_def)

lemma trace_emit [simp]: "trace (emit e s) = trace s @ [e]"
  by (simp add: emit_def)

lemma db_emit [simp]: "db (emit e s) = db s"
  by (simp add: emit_def)

lemma pool_emit [simp]: "pool (emit e s) = pool s"
  by (simp add: emit_def)

lemma table_names_add_table [simp]: "table_names (add_table v sch s) = table_names s @ [v]"
  by (simp add: table_names_def add_table_def)

lemma trace_add_table [simp]: "trace (add_table v sch s) = trace s"
  by (simp add: add_table_def)

lemma table_names_alter_table [simp]: "table_names (alter_table v f s) = table_names s"
  by (simp add: table_names_def alter_table_def comp_def)

lemma trace_alter_table [simp]: "trace (alter_table v f s) = trace s"
  by (simp add: alter_table_def)

lemma trace_apply_statement [simp]: "trace (apply_statement st s) = trace s"
  by (cases st) simp_all

lemma table_names_apply_statement:
  "table_names (apply_statement st s) =
     (case st of CreateTableStmt t sch \<Rightarrow> table_names s @ [t] | AlterTableStmt t c \<Rightarrow> table_names s)"
  by (cases st) simp_all

lemma new_events_self [simp]: "new_events s s = []"
  by (simp add: new_events_def)

lemma new_events_append:
  "trace s1 = trace s @ e1 \<Longrightarrow> trace s2 = trace s1 @ e2 \<Longrightarrow> new_events s s2 = e1 @ e2"
  by (simp add: new_events_def)

lemma registered_target: "createTableInstructions v = Some i \<Longrightarrow> fst i = v"
  by (auto simp: createTableInstructions_def createTableInstructions_entries_def split: if_splits)

lemma statement_outcome_table:
  "statement_outcome env st s = Some e \<Longrightarrow> table_of_error e = statement_table st"
  by (cases st) (auto simp: statement_outcome_def split: if_splits option.splits)

section \<open>The statements of one \<open>knex.schema.createTable\<close>\<close>

lemma exec_statements_Cons:
  "exec_statements env (st # sts) s =
     (case statement_outcome env st s of
        Some e \<Rightarrow> (Inl e, emit (Ddl st (table_names s) (Some e)) s)
      | None \<Rightarrow> exec_statements env sts
                  (apply_statement st (emit (Ddl st (table_names s) None) s)))"
  by (simp add: exec_statement_def then_p_def Let_def split: option.splits)

declare exec_statements.simps(2) [simp del]

lemma exec_trace:
  "trace (snd (exec_statements env sts s)) = trace s @ new_events s (snd (exec_statements env sts s))"
proof (induction sts arbitrary: s)
  case Nil
  then show ?case by simp
next
  case (Cons st sts)
  show ?case
  proof (cases "statement_outcome env st s")
    case None
    let ?s1 = "apply_statement st (emit (Ddl st (table_names s) None) s)"
    have 1: "trace ?s1 = trace s @ [Ddl st (table_names s) None]" by simp
    show ?thesis
      unfolding exec_statements_Cons None option.case
      using new_events_append [OF 1 Cons.IH [of ?s1]] Cons.IH [of ?s1] by simp
  next
    case (Some e)
    then show ?thesis by (simp add: exec_statements_Cons new_events_def)
  qed
qed

lemma exec_events_Cons:
  "new_events s (snd (exec_statements env (st # sts) s)) =
     Ddl st (table_names s) (statement_outcome env st s)
     # (case statement_outcome env st s of
          Some e \<Rightarrow> []
        | None \<Rightarrow> new_events (apply_statement st (emit (Ddl st (table_names s) None) s))
                    (snd (exec_statements env sts
                       (apply_statement st (emit (Ddl st (table_names s) None) s)))))"
proof (cases "statement_outcome env st s")
  case None
  let ?s1 = "apply_statement st (emit (Ddl st (table_names s) None) s)"
  have 1: "trace ?s1 = trace s @ [Ddl st (table_names s) None]" by simp
  show ?thesis
    unfolding exec_statements_Cons None option.case
    using new_events_append [OF 1 exec_trace [of env sts ?s1]] by simp
next
  case (Some e)
  then show ?thesis by (simp add: exec_statements_Cons new_events_def)
qed

lemma exec_tables_kept:
  "set (table_names s) \<subseteq> set (table_names (snd (exec_statements env sts s)))"
proof (induction sts arbitrary: s)
  case Nil
  then show ?case by simp
next
  case (Cons st sts)
  show ?case
  proof (cases "statement_outcome env st s")
    case None
    let ?s1 = "apply_statement st (emit (Ddl st (table_names s) None) s)"
    have "set (table_names s) \<subseteq> set (table_names ?s1)"
      by (cases st) auto
    then show ?thesis
      unfolding exec_statements_Cons None option.case using Cons.IH [of ?s1] by blast
  next
    case (Some e)
    then show ?thesis by (simp add: exec_statements_Cons)
  qed
qed

lemma exec_tables_bound:
  "\<forall>st\<in>set sts. statement_table st = v \<Longrightarrow>
     set (table_names (snd (exec_statements env sts s))) \<subseteq> insert v (set (table_names s))"
proof (induction sts arbitrary: s)
  case Nil
  then show ?case by auto
next
  case (Cons st sts)
  show ?case
  proof (cases "statement_outcome env st s")
    case None
    let ?s1 = "apply_statement st (emit (Ddl st (table_names s) None) s)"
    have "set (table_names ?s1) \<subseteq> insert v (set (table_names s))"
      using Cons.prems by (cases st) auto
    moreover have "set (table_names (snd (exec_statements env sts ?s1))) \<subseteq> insert v (set (table_names ?s1))"
      using Cons.IH [of ?s1] Cons.prems by simp
    ultimately show ?thesis
      unfolding exec_statements_Cons None option.case by blast
  next
    case (Some e)
    then show ?thesis by (auto simp: exec_statements_Cons)
  qed
qed

lemma exec_events:
  "ev \<in> set (new_events s (snd (exec_statements env sts s))) \<Longrightarrow>
     \<exists>st P out. ev = Ddl st P out \<and> st \<in> set sts \<and> set (table_names s) \<subseteq> set P"
proof (induction sts arbitrary: s)
  case Nil
  then show ?case by simp
next
  case (Cons st sts)
  show ?case
  proof (cases "statement_outcome env st s")
    case None
    let ?s1 = "apply_statement st (emit (Ddl st (table_names s) None) s)"
    have sub: "set (table_names s) \<subseteq> set (table_names ?s1)" by (cases st) auto
    from Cons.prems have "ev = Ddl st (table_names s) None
        \<or> ev \<in> set (new_events ?s1 (snd (exec_statements env sts ?s1)))"
      unfolding exec_events_Cons None by simp
    then show ?thesis
    proof
      assume "ev = Ddl st (table_names s) None"
      then show ?thesis by auto
    next
      assume "ev \<in> set (new_events ?s1 (snd (exec_statements env sts ?s1)))"
      from Cons.IH [OF this] sub show ?thesis by auto
    qed
  next
    case (Some e)
    with Cons.prems show ?thesis by (auto simp: exec_events_Cons)
  qed
qed

lemma exec_failed_event:
  "Ddl st P (Some e) \<in> set (new_events s (snd (exec_statements env sts s))) \<Longrightarrow>
     fst (exec_statements env sts s) = Inl e"
proof (induction sts arbitrary: s)
  case Nil
  then show ?case by simp
next
  case (Cons st' sts)
  show ?case
  proof (cases "statement_outcome env st' s")
    case None
    let ?s1 = "apply_statement st' (emit (Ddl st' (table_names s) None) s)"
    from Cons.prems have "Ddl st P (Some e) \<in> set (new_events ?s1 (snd (exec_statements env sts ?s1)))"
      unfolding exec_events_Cons None by simp
    from Cons.IH [OF this] show ?thesis
      unfolding exec_statements_Cons None option.case .
  next
    case (Some e')
    with Cons.prems have "e' = e" by (simp add: exec_events_Cons)
    with Some show ?thesis by (simp add: exec_statements_Cons)
  qed
qed

lemma exec_rejected:
  "\<forall>st\<in>set sts. statement_table st = v \<Longrightarrow> fst (exec_statements env sts s) = Inl e \<Longrightarrow>
     table_of_error e = v"
proof (induction sts arbitrary: s)
  case Nil
  then show ?case by simp
next
  case (Cons st sts)
  show ?case
  proof (cases "statement_outcome env st s")
    case None
    let ?s1 = "apply_statement st (emit (Ddl st (table_names s) None) s)"
    from Cons.prems(2) have "fst (exec_statements env sts ?s1) = Inl e"
      unfolding exec_statements_Cons None option.case .
    then show ?thesis using Cons.IH [of ?s1] Cons.prems(1) by simp
  next
    case (Some e')
    with Cons.prems show ?thesis
      using statement_outcome_table [of env st s e'] by (auto simp: exec_statements_Cons)
  qed
qed

section \<open>One turn of the provisioning pass\<close>

lemma statements_of_table: "st \<in> set (statements_of v b) \<Longrightarrow> statement_table st = v"
  by (auto simp: statements_of_def)

lemma createTable_registered:
  assumes "createTableInstructions v = Some i"
  shows "createTable env v s =
     (if v \<in> set (table_names s)
      then (ReturnsPromise (Inr ()), emit (LogDebug (AlreadyExists v)) (emit (HasTable v True) s))
      else (case exec_statements env (statements_of v (snd i))
                   (emit (HasTable v False) (emit (HasTable v False) s)) of
              (Inr u, s') \<Rightarrow> (ReturnsPromise (Inr ()), emit (LogDebug (TableCreated v)) s')
            | (Inl e, s') \<Rightarrow> (ReturnsPromise (Inl e), s')))"
  using registered_target [OF assms]
  by (simp add: createTable_def get_property_registered [OF assms] truthy_def then_p_def
      knex_schema_hasTable_def call_instruction_def run_instruction_def knex_schema_createTable_def
      logger_debug_def Let_def split: prod.splits sum.splits)

lemma create_and_catch_registered:
  assumes "createTableInstructions v = Some i"
  shows "create_and_catch env v s =
     (if v \<in> set (table_names s)
      then (Inr (), emit (LogDebug (AlreadyExists v)) (emit (HasTable v True) s))
      else (case exec_statements env (statements_of v (snd i))
                   (emit (HasTable v False) (emit (HasTable v False) s)) of
              (Inr u, s') \<Rightarrow> (Inr (), emit (LogDebug (TableCreated v)) s')
            | (Inl e, s') \<Rightarrow> (Inr (), emit (LogError (ErrorObject e)) s')))"
  by (simp add: create_and_catch_def createTable_registered [OF assms] catch_p_def logger_error_def
      split: prod.splits sum.splits)

lemma step_resolves:
  "createTableInstructions v = Some i \<Longrightarrow> fst (create_and_catch env v s) = Inr ()"
  by (simp add: create_and_catch_registered split: prod.splits sum.splits)

lemma step_present:
  assumes "createTableInstructions v = Some i" and "v \<in> set (table_names s)"
  shows "new_events s (snd (create_and_catch env v s)) = [HasTable v True, LogDebug (AlreadyExists v)]"
    and "table_names (snd (create_and_catch env v s)) = table_names s"
    and "trace (snd (create_and_catch env v s)) = trace s @ new_events s (snd (create_and_catch env v s))"
  using assms(2) by (simp_all add: create_and_catch_registered [OF assms(1)] new_events_def)

lemma step_absent:
  assumes "createTableInstructions v = Some i" and "v \<notin> set (table_names s)"
  shows "new_events s (snd (create_and_catch env v s)) =
           [HasTable v False, HasTable v False]
           @ new_events (emit (HasTable v False) (emit (HasTable v False) s))
               (snd (exec_statements env (statements_of v (snd i))
                  (emit (HasTable v False) (emit (HasTable v False) s))))
           @ [case fst (exec_statements env (statements_of v (snd i))
                     (emit (HasTable v False) (emit (HasTable v False) s))) of
                Inr u \<Rightarrow> LogDebug (TableCreated v)
              | Inl e \<Rightarrow> LogError (ErrorObject e)]"
    and "table_names (snd (create_and_catch env v s)) =
           table_names (snd (exec_statements env (statements_of v (snd i))
              (emit (HasTable v False) (emit (HasTable v False) s))))"
    and "trace (snd (create_and_catch env v s)) = trace s @ new_events s (snd (create_and_catch env v s))"
proof -
  let ?s2 = "emit (HasTable v False) (emit (HasTable v False) s)"
  let ?R = "exec_statements env (statements_of v (snd i)) ?s2"
  let ?final = "case fst ?R of Inr u \<Rightarrow> LogDebug (TableCreated v) | Inl e \<Rightarrow> LogError (ErrorObject e)"
  define D where "D = new_events ?s2 (snd ?R)"
  have t: "trace (snd ?R) = trace s @ [HasTable v False, HasTable v False] @ D"
    unfolding D_def using exec_trace [of env "statements_of v (snd i)" ?s2] by simp
  have c: "create_and_catch env v s = (Inr (), emit ?final (snd ?R))"
    using assms(2)
    by (cases ?R rule: prod.exhaust; cases "fst ?R")
      (simp_all add: create_and_catch_registered [OF assms(1)])
  have tr: "trace (snd (create_and_catch env v s)) =
              trace s @ ([HasTable v False, HasTable v False] @ D @ [?final])"
    unfolding c using t by simp
  then have ev: "new_events s (snd (create_and_catch env v s)) =
              [HasTable v False, HasTable v False] @ D @ [?final]"
    unfolding new_events_def by simp
  show "new_events s (snd (create_and_catch env v s)) =
           [HasTable v False, HasTable v False] @ new_events ?s2 (snd ?R) @ [?final]"
    using ev unfolding D_def .
  show "table_names (snd (create_and_catch env v s)) = table_names (snd ?R)"
    unfolding c by simp
  show "trace (snd (create_and_catch env v s)) = trace s @ new_events s (snd (create_and_catch env v s))"
    unfolding ev using tr .
qed

lemma step_trace:
  "createTableInstructions v = Some i \<Longrightarrow>
     trace (snd (create_and_catch env v s)) = trace s @ new_events s (snd (create_and_catch env v s))"
  using step_present(3) step_absent(3) by blast

lemma step_table_of:
  assumes i: "createTableInstructions v = Some i"
    and e: "e \<in> set (new_events s (snd (create_and_catch env v s)))"
  shows "table_of e = v"
proof (cases "v \<in> set (table_names s)")
  case True
  with e show ?thesis by (auto simp: step_present(1) [OF i True])
next
  case False
  let ?s2 = "emit (HasTable v False) (emit (HasTable v False) s)"
  let ?R = "exec_statements env (statements_of v (snd i)) ?s2"
  from e consider "e = HasTable v False" | "e \<in> set (new_events ?s2 (snd ?R))"
    | "e = (case fst ?R of Inr u \<Rightarrow> LogDebug (TableCreated v) | Inl e \<Rightarrow> LogError (ErrorObject e))"
    unfolding step_absent(1) [OF i False] by auto
  then show ?thesis
  proof cases
    case 1
    then show ?thesis by simp
  next
    case 2
    from exec_events [OF 2] statements_of_table show ?thesis by auto
  next
    case 3
    show ?thesis
    proof (cases "fst ?R")
      case (Inl err)
      then have "table_of_error err = v"
        using exec_rejected [of "statements_of v (snd i)" v env ?s2 err] statements_of_table by blast
      with 3 Inl show ?thesis by simp
    next
      case (Inr u)
      with 3 show ?thesis by simp
    qed
  qed
qed


lemma exec_no_log:
  "filter (\<lambda>e. is_log e \<and> Q e) (new_events s (snd (exec_statements env sts s))) = []"
  unfolding filter_empty_conv using exec_events [of _ s env sts] by fastforce

lemma altering_no_create:
  "filter (\<lambda>e. is_create e \<and> Q e)
     (new_events s (snd (exec_statements env (map (AlterTableStmt v) cs) s))) = []"
  unfolding filter_empty_conv using exec_events [of _ s env "map (AlterTableStmt v) cs"] by fastforce

lemma step_log_entries:
  assumes i: "createTableInstructions v = Some i"
  shows "length (log_entries v (new_events s (snd (create_and_catch env v s)))) = 1"
proof (cases "v \<in> set (table_names s)")
  case True
  then show ?thesis by (simp add: step_present(1) [OF i True] log_entries_def)
next
  case False
  let ?s2 = "emit (HasTable v False) (emit (HasTable v False) s)"
  let ?R = "exec_statements env (statements_of v (snd i)) ?s2"
  have "table_of (case fst ?R of Inr u \<Rightarrow> LogDebug (TableCreated v) | Inl e \<Rightarrow> LogError (ErrorObject e)) = v"
    using step_table_of [OF i, of _ s env] unfolding step_absent(1) [OF i False] by simp
  moreover have "is_log (case fst ?R of Inr u \<Rightarrow> LogDebug (TableCreated v) | Inl e \<Rightarrow> LogError (ErrorObject e))"
    by (cases "fst ?R") simp_all
  ultimately show ?thesis
    unfolding step_absent(1) [OF i False] log_entries_def
    by (simp add: exec_no_log)
qed

lemma step_create_attempts:
  assumes i: "createTableInstructions v = Some i"
  shows "length (create_attempts v (new_events s (snd (create_and_catch env v s)))) =
       (if v \<in> set (table_names s) then 0 else 1)"
proof (cases "v \<in> set (table_names s)")
  case True
  then show ?thesis by (simp add: step_present(1) [OF i True] create_attempts_def)
next
  case False
  let ?s2 = "emit (HasTable v False) (emit (HasTable v False) s)"
  let ?R = "exec_statements env (statements_of v (snd i)) ?s2"
  have "\<not> is_create (case fst ?R of Inr u \<Rightarrow> LogDebug (TableCreated v) | Inl e \<Rightarrow> LogError (ErrorObject e))"
    by (cases "fst ?R") simp_all
  then show ?thesis
    using False
    unfolding step_absent(1) [OF i False] create_attempts_def statements_of_def exec_events_Cons
    by (simp add: altering_no_create split: option.splits)
qed

lemma step_other_tables:
  assumes i: "createTableInstructions v = Some i" and w: "w \<noteq> v"
  shows "w \<in> set (table_names (snd (create_and_catch env v s))) \<longleftrightarrow> w \<in> set (table_names s)"
proof (cases "v \<in> set (table_names s)")
  case True
  then show ?thesis by (simp add: step_present(2) [OF i True])
next
  case False
  let ?s2 = "emit (HasTable v False) (emit (HasTable v False) s)"
  show ?thesis
    unfolding step_absent(2) [OF i False]
    using exec_tables_kept [of ?s2 env "statements_of v (snd i)"]
      exec_tables_bound [of "statements_of v (snd i)" v env ?s2] statements_of_table w
    by auto
qed



lemma step_failure_logged:
  assumes i: "createTableInstructions v = Some i"
    and e: "Ddl st P (Some err) \<in> set (new_events s (snd (create_and_catch env v s)))"
  shows "LogError (ErrorObject err) \<in> set (new_events s (snd (create_and_catch env v s)))"
proof (cases "v \<in> set (table_names s)")
  case True
  with e show ?thesis by (simp add: step_present(1) [OF i True])
next
  case False
  let ?s2 = "emit (HasTable v False) (emit (HasTable v False) s)"
  let ?R = "exec_statements env (statements_of v (snd i)) ?s2"
  from e have "Ddl st P (Some err) \<in> set (new_events ?s2 (snd ?R))"
    unfolding step_absent(1) [OF i False] by (cases "fst ?R") auto
  then have "fst ?R = Inl err" by (rule exec_failed_event)
  then show ?thesis unfolding step_absent(1) [OF i False] by simp
qed


lemma ensure_from_Nil [simp]: "ensure_from env [] p = p"
  by (simp add: ensure_from_def)

lemma ensure_from_Cons:
  "ensure_from env (v # vs) (Inr x, s) = ensure_from env vs (create_and_catch env v s)"
  by (simp add: ensure_from_def then_p_def)

lemma ensure_from_step:
  assumes "createTableInstructions v = Some i"
  shows "ensure_from env (v # vs) (Inr (), s) =
           ensure_from env vs (Inr (), snd (create_and_catch env v s))"
proof -
  have "create_and_catch env v s = (Inr (), snd (create_and_catch env v s))"
    using step_resolves [OF assms, of env s] by (simp add: prod_eq_iff)
  then show ?thesis by (simp add: ensure_from_Cons)
qed

lemma ensure_from_resolves:
  "\<forall>v\<in>set vs. createTableInstructions v \<noteq> None \<Longrightarrow>
     fst (ensure_from env vs (Inr (), s)) = Inr ()"
proof (induction vs arbitrary: s)
  case Nil
  then show ?case by simp
next
  case (Cons v vs)
  then obtain i where i: "createTableInstructions v = Some i" by auto
  show ?case using Cons by (simp add: ensure_from_step [OF i])
qed

lemma ensure_from_trace:
  "\<forall>v\<in>set vs. createTableInstructions v \<noteq> None \<Longrightarrow>
     trace (snd (ensure_from env vs (Inr (), s))) =
       trace s @ new_events s (snd (ensure_from env vs (Inr (), s)))"
proof (induction vs arbitrary: s)
  case Nil
  then show ?case by simp
next
  case (Cons v vs)
  then obtain i where i: "createTableInstructions v = Some i" by auto
  let ?s1 = "snd (create_and_catch env v s)"
  have 1: "trace ?s1 = trace s @ new_events s ?s1" by (rule step_trace [OF i])
  have 2: "trace (snd (ensure_from env vs (Inr (), ?s1))) =
             trace ?s1 @ new_events ?s1 (snd (ensure_from env vs (Inr (), ?s1)))"
    using Cons by simp
  show ?case
    unfolding ensure_from_step [OF i]
    using new_events_append [OF 1 2] 1 2 by simp
qed

lemma ensure_from_events:
  assumes "createTableInstructions v = Some i" "\<forall>w\<in>set vs. createTableInstructions w \<noteq> None"
  shows "new_events s (snd (ensure_from env (v # vs) (Inr (), s))) =
           new_events s (snd (create_and_catch env v s)) @
           new_events (snd (create_and_catch env v s))
             (snd (ensure_from env vs (Inr (), snd (create_and_catch env v s))))"
  unfolding ensure_from_step [OF assms(1)]
  using new_events_append [OF step_trace [OF assms(1)] ensure_from_trace [OF assms(2)]] .

section \<open>The provisioning pass\<close>

text \<open>The whole pass, over any list of registered names.\<close>

lemma pass_table_of:
  "\<forall>v\<in>set vs. createTableInstructions v \<noteq> None \<Longrightarrow>
     e \<in> set (new_events s (snd (ensure_from env vs (Inr (), s)))) \<Longrightarrow> table_of e \<in> set vs"
proof (induction vs arbitrary: s)
  case Nil
  then show ?case by simp
next
  case (Cons v vs)
  then obtain i where i: "createTableInstructions v = Some i" by auto
  have r: "\<forall>w\<in>set vs. createTableInstructions w \<noteq> None" using Cons.prems by simp
  from Cons.prems(2) show ?case
    unfolding ensure_from_events [OF i r]
    using step_table_of [OF i] Cons.IH [OF r] by auto
qed

lemma pass_other_tables:
  "\<forall>v\<in>set vs. createTableInstructions v \<noteq> None \<Longrightarrow> w \<notin> set vs \<Longrightarrow>
     w \<in> set (table_names (snd (ensure_from env vs (Inr (), s)))) \<longleftrightarrow> w \<in> set (table_names s)"
proof (induction vs arbitrary: s)
  case Nil
  then show ?case by simp
next
  case (Cons v vs)
  then obtain i where i: "createTableInstructions v = Some i" by auto
  have r: "\<forall>w\<in>set vs. createTableInstructions w \<noteq> None" using Cons.prems by simp
  show ?case
    unfolding ensure_from_step [OF i]
    using Cons.IH [OF r] Cons.prems(2) step_other_tables [OF i, of w] by simp
qed


lemma pass_failure_logged:
  "\<forall>v\<in>set vs. createTableInstructions v \<noteq> None \<Longrightarrow>
     Ddl st P (Some e) \<in> set (new_events s (snd (ensure_from env vs (Inr (), s)))) \<Longrightarrow>
     LogError (ErrorObject e) \<in> set (new_events s (snd (ensure_from env vs (Inr (), s))))"
proof (induction vs arbitrary: s)
  case Nil
  then show ?case by simp
next
  case (Cons v vs)
  then obtain i where i: "createTableInstructions v = Some i" by auto
  have r: "\<forall>w\<in>set vs. createTableInstructions w \<noteq> None" using Cons.prems by simp
  from Cons.prems(2) show ?case
    unfolding ensure_from_events [OF i r]
    using step_failure_logged [OF i] Cons.IH [OF r] by auto
qed

lemma filter_other_table:
  "\<forall>e\<in>set evs. table_of e \<noteq> v \<Longrightarrow> filter (\<lambda>e. Q e \<and> table_of e = v) evs = []"
  by (induction evs) auto

lemma pass_counts:
  "\<forall>v\<in>set vs. createTableInstructions v \<noteq> None \<Longrightarrow> distinct vs \<Longrightarrow> u \<in> set vs \<Longrightarrow>
     length (log_entries u (new_events s (snd (ensure_from env vs (Inr (), s))))) = 1
     \<and> length (create_attempts u (new_events s (snd (ensure_from env vs (Inr (), s))))) =
         (if u \<in> set (table_names s) then 0 else 1)"
proof (induction vs arbitrary: s)
  case Nil
  then show ?case by simp
next
  case (Cons v vs)
  then obtain i where i: "createTableInstructions v = Some i" by auto
  have r: "\<forall>w\<in>set vs. createTableInstructions w \<noteq> None" using Cons.prems by simp
  let ?s1 = "snd (create_and_catch env v s)"
  let ?e1 = "new_events s ?s1"
  let ?rest = "new_events ?s1 (snd (ensure_from env vs (Inr (), ?s1)))"
  show ?case
  proof (cases "u = v")
    case True
    have "\<forall>e\<in>set ?rest. table_of e \<noteq> v"
      using pass_table_of [OF r] Cons.prems(2) by auto
    then have "log_entries v ?rest = []" "create_attempts v ?rest = []"
      unfolding log_entries_def create_attempts_def by (rule filter_other_table)+
    then show ?thesis
      unfolding ensure_from_events [OF i r]
      using True step_log_entries [OF i, where s=s and env=env]
        step_create_attempts [OF i, where s=s and env=env]
      by (simp add: log_entries_def create_attempts_def)
  next
    case False
    then have u: "u \<in> set vs" using Cons.prems(3) by simp
    have "\<forall>e\<in>set ?e1. table_of e \<noteq> u"
      using step_table_of [OF i] False by auto
    then have "log_entries u ?e1 = []" "create_attempts u ?e1 = []"
      unfolding log_entries_def create_attempts_def by (rule filter_other_table)+
    moreover have "distinct vs" using Cons.prems(2) by simp
    ultimately show ?thesis
      unfolding ensure_from_events [OF i r]
      using Cons.IH [OF r _ u, of ?s1] step_other_tables [OF i False, where s=s and env=env]
      by (simp add: log_entries_def create_attempts_def)
  qed
qed




lemma order_registered: "\<forall>v\<in>set provisioning_order. createTableInstructions v \<noteq> None"
  by (simp add: provisioning_order_def createTableInstructions_def createTableInstructions_entries_def)

lemma order_distinct: "distinct provisioning_order"
  by (simp add: provisioning_order_def)

lemma registered_simps:
  "createTableInstructions ''hearings'' = Some (''hearings'', hearings_builder)"
  "createTableInstructions ''requests'' = Some (''requests'', requests_builder)"
  "createTableInstructions ''notifications'' = Some (''notifications'', notifications_builder)"
  "createTableInstructions ''log_runners'' = Some (''log_runners'', log_runners_builder)"
  "createTableInstructions ''log_hits'' = Some (''log_hits'', log_hits_builder)"
  by (simp_all add: createTableInstructions_def createTableInstructions_entries_def)

lemma altering_statements:
  "filter (\<lambda>c. \<not> inline c) hearings_builder = [Primary [''case_id'', ''date''], Index [''case_id'']]"
  "filter (\<lambda>c. \<not> inline c) requests_builder = [Primary [''case_id'', ''phone'']]"
  "filter (\<lambda>c. \<not> inline c) notifications_builder =
     [Foreign [''case_id'', ''phone''] Cascade [''case_id'', ''phone''] ''requests'']"
  "filter (\<lambda>c. \<not> inline c) log_runners_builder = []"
  "filter (\<lambda>c. \<not> inline c) log_hits_builder = []"
  by (simp_all add: hearings_builder_def requests_builder_def notifications_builder_def
      log_runners_builder_def log_hits_builder_def)

lemmas pass_evaluation =
  ensureTablesExist_def provisioning_order_def ensure_from_def then_p_def
  create_and_catch_registered [OF registered_simps(1)]
  create_and_catch_registered [OF registered_simps(2)]
  create_and_catch_registered [OF registered_simps(3)]
  create_and_catch_registered [OF registered_simps(4)]
  create_and_catch_registered [OF registered_simps(5)]
  statements_of_def altering_statements exec_statements_Cons statement_outcome_def
  fresh_state_def table_names_def emit_def add_table_def alter_table_def new_events_def

lemma denied_pass_facts:
  "Ddl (CreateTableStmt ''requests'' (build (filter inline requests_builder))) []
       (Some (DdlRejected ''requests''))
     \<in> set (new_events fresh_state (snd (ensureTablesExist requests_denied fresh_state)))"
  "Ddl (CreateTableStmt ''notifications'' (build (filter inline notifications_builder)))
       [''hearings''] None
     \<in> set (new_events fresh_state (snd (ensureTablesExist requests_denied fresh_state)))"
  "LogError (ErrorObject (FkTargetMissing ''notifications'' ''requests''))
     \<in> set (new_events fresh_state (snd (ensureTablesExist requests_denied fresh_state)))"
  "table_names (snd (ensureTablesExist requests_denied fresh_state)) =
     [''hearings'', ''notifications'', ''log_runners'', ''log_hits'']"
  by (simp_all add: pass_evaluation requests_denied_def)


lemma table_names_fresh_state: "table_names fresh_state = []"
  by (simp add: fresh_state_def table_names_def)

text \<open>
  Claim C4. Whatever the database rejects, \<open>ensureTablesExist\<close> resolves. Every table of
  the provisioning order gets its turn exactly once: the pass logs exactly one entry about
  it (that it exists, that it was created, or the error of its creation) and sends exactly
  one \<open>create table\<close> for it if it was absent, none if it was there. A statement that
  fails is logged as an error, and the tables after it still get their turn.
\<close>

theorem ensureTablesExist_best_effort:
  "fst (ensureTablesExist env s) = Inr ()
   \<and> (\<forall>v\<in>set provisioning_order.
         length (log_entries v (new_events s (snd (ensureTablesExist env s)))) = 1
       \<and> length (create_attempts v (new_events s (snd (ensureTablesExist env s)))) =
           (if v \<in> set (table_names s) then 0 else 1))
   \<and> (\<forall>st P e. Ddl st P (Some e) \<in> set (new_events s (snd (ensureTablesExist env s)))
         \<longrightarrow> LogError (ErrorObject e) \<in> set (new_events s (snd (ensureTablesExist env s))))"
  unfolding ensureTablesExist_def
  using ensure_from_resolves [OF order_registered, of env s]
    pass_counts [OF order_registered order_distinct, of _ s env]
    pass_failure_logged [OF order_registered, of _ _ _ s env]
  by blast

theorem ensureTablesExist_best_effort_witness:
  "fst (ensureTablesExist requests_denied fresh_state) = Inr ()
   \<and> Ddl (CreateTableStmt ''requests'' (build (filter inline requests_builder))) []
         (Some (DdlRejected ''requests''))
       \<in> set (new_events fresh_state (snd (ensureTablesExist requests_denied fresh_state)))
   \<and> LogError (ErrorObject (DdlRejected ''requests''))
       \<in> set (new_events fresh_state (snd (ensureTablesExist requests_denied fresh_state)))
   \<and> ''log_hits'' \<in> set provisioning_order
   \<and> length (create_attempts ''log_hits''
        (new_events fresh_state (snd (ensureTablesExist requests_denied fresh_state)))) = 1
   \<and> ''log_hits'' \<in> set (table_names (snd (ensureTablesExist requests_denied fresh_state)))"
proof -
  have "''log_hits'' \<in> set provisioning_order" by (simp add: provisioning_order_def)
  then show ?thesis
    using ensureTablesExist_best_effort [of requests_denied fresh_state]
      denied_pass_facts(1) denied_pass_facts(4) table_names_fresh_state
    by auto
qed




section \<open>What createTable returns\<close>

lemma createTable_registered_promise:
  "createTableInstructions v = Some i \<Longrightarrow> fst (createTable env v s) \<noteq> ReturnsFalse"
  by (simp add: createTable_registered split: prod.splits sum.splits)

text \<open>
  Every name of the provisioning order has an entry in the registry, so during
  \<open>ensureTablesExist\<close> no call of \<open>createTable\<close> returns \<open>false\<close>, and the pass resolves.
\<close>

lemma provisioning_never_false:
  "(\<forall>v\<in>set provisioning_order.
      createTableInstructions v \<noteq> None \<and> fst (createTable env v s) \<noteq> ReturnsFalse)
   \<and> fst (ensureTablesExist env s') = Inr ()"
proof -
  have "fst (ensureTablesExist env s') = Inr ()"
    unfolding ensureTablesExist_def by (rule ensure_from_resolves [OF order_registered])
  then show ?thesis using order_registered createTable_registered_promise by blast
qed

lemma createTable_absent:
  "get_property name = Absent \<Longrightarrow>
     createTable env name s = (ReturnsFalse, emit (LogError (NoInstructions name)) s)"
  by (simp add: createTable_def truthy_def logger_error_def)

lemma get_property_toString: "get_property ''toString'' = Inherited"
  by (simp add: get_property_def createTableInstructions_def createTableInstructions_entries_def
      object_prototype_properties_def)

text \<open>
  Claim C9 at the name \<open>toString\<close>. The registry has no entry of that name, yet
  \<open>createTable\<close> does not return \<open>false\<close> for it: the property read finds
  \<open>Object.prototype.toString\<close>, and the call returns a promise, which is rejected with a
  \<open>TypeError\<close>.
\<close>

theorem createTable_unregistered_promise:
  "createTableInstructions ''toString'' = None
   \<and> fst (createTable no_faults ''toString'' fresh_state) \<noteq> ReturnsFalse
   \<and> fst (createTable no_faults ''toString'' fresh_state) =
       ReturnsPromise (Inl (TypeError ''createTableInstructions[table](...).then is not a function''))"
  by (simp add: createTable_def get_property_toString truthy_def then_p_def knex_schema_hasTable_def
      call_instruction_def table_names_def fresh_state_def emit_def
      createTableInstructions_def createTableInstructions_entries_def)

section \<open>Calling createTable again\<close>

lemma exec_resolved_created:
  "fst (exec_statements env (statements_of v b) s) = Inr u \<Longrightarrow>
     v \<in> set (table_names (snd (exec_statements env (statements_of v b) s)))"
proof -
  let ?st = "CreateTableStmt v (build (filter inline b))"
  let ?sts = "map (AlterTableStmt v) (filter (\<lambda>c. \<not> inline c) b)"
  assume r: "fst (exec_statements env (statements_of v b) s) = Inr u"
  show ?thesis
  proof (cases "statement_outcome env ?st s")
    case None
    let ?s1 = "apply_statement ?st (emit (Ddl ?st (table_names s) None) s)"
    have "v \<in> set (table_names ?s1)" by simp
    then have "v \<in> set (table_names (snd (exec_statements env ?sts ?s1)))"
      using exec_tables_kept [of ?s1 env ?sts] by blast
    then show ?thesis unfolding statements_of_def exec_statements_Cons None by simp
  next
    case (Some e)
    with r show ?thesis by (simp add: statements_of_def exec_statements_Cons)
  qed
qed

lemma createTable_present:
  "createTableInstructions v = Some i \<Longrightarrow> v \<in> set (table_names s) \<Longrightarrow>
     createTable env v s =
       (ReturnsPromise (Inr ()), emit (LogDebug (AlreadyExists v)) (emit (HasTable v True) s))"
  by (simp add: createTable_registered)

lemma createTable_resolved_present:
  assumes i: "createTableInstructions v = Some i"
    and r: "fst (createTable env v s) = ReturnsPromise (Inr ())"
  shows "v \<in> set (table_names (snd (createTable env v s)))"
proof (cases "v \<in> set (table_names s)")
  case True
  then show ?thesis by (simp add: createTable_present [OF i True])
next
  case False
  let ?R = "exec_statements env (statements_of v (snd i))
              (emit (HasTable v False) (emit (HasTable v False) s))"
  from r False have "fst ?R = Inr ()"
    by (cases ?R rule: prod.exhaust; cases "fst ?R") (simp_all add: createTable_registered [OF i])
  from exec_resolved_created [OF this] False show ?thesis
    by (cases ?R rule: prod.exhaust; cases "fst ?R") (simp_all add: createTable_registered [OF i])
qed

text \<open>
  Claim C3, as the code has it. For every registered table name: a call of \<open>createTable\<close>
  that resolves leaves the table in place; and whenever the first call leaves the table in
  place, a second call resolves, whatever the database would reject by then: it finds the
  table in its existence check, logs that the table exists, runs no create procedure, and
  leaves the schema, and the whole database, as the first call left it.
\<close>

theorem createTable_twice:
  assumes "createTableInstructions name \<noteq> None"
  shows "(fst (createTable env name s) = ReturnsPromise (Inr ())
            \<longrightarrow> name \<in> set (table_names (snd (createTable env name s))))
     \<and> (name \<in> set (table_names (snd (createTable env name s)))
            \<longrightarrow> fst (createTable env' name (snd (createTable env name s))) = ReturnsPromise (Inr ())
              \<and> new_events (snd (createTable env name s))
                   (snd (createTable env' name (snd (createTable env name s)))) =
                  [HasTable name True, LogDebug (AlreadyExists name)]
              \<and> db (snd (createTable env' name (snd (createTable env name s)))) =
                  db (snd (createTable env name s)))"
proof -
  from assms obtain i where i: "createTableInstructions name = Some i" by auto
  have "name \<in> set (table_names (snd (createTable env name s)))
          \<Longrightarrow> fst (createTable env' name (snd (createTable env name s))) = ReturnsPromise (Inr ())
              \<and> new_events (snd (createTable env name s))
                   (snd (createTable env' name (snd (createTable env name s)))) =
                  [HasTable name True, LogDebug (AlreadyExists name)]
              \<and> db (snd (createTable env' name (snd (createTable env name s)))) =
                  db (snd (createTable env name s))"
  proof -
    assume present: "name \<in> set (table_names (snd (createTable env name s)))"
    show ?thesis
      unfolding createTable_present [OF i present] by (simp add: new_events_def)
  qed
  then show ?thesis using createTable_resolved_present [OF i] by blast
qed

lemmas createTable_evaluation =
  statements_of_def altering_statements exec_statements_Cons statement_outcome_def
  fresh_state_def table_names_def emit_def add_table_def alter_table_def new_events_def

lemma createTable_requests_fresh:
  "fst (createTable no_faults ''requests'' fresh_state) = ReturnsPromise (Inr ())"
  "table_names (snd (createTable no_faults ''requests'' fresh_state)) = [''requests'']"
  "contents (db (snd (createTable no_faults ''requests'' fresh_state))) = (\<lambda>t. [])"
  by (simp_all add: createTable_registered [OF registered_simps(2)] createTable_evaluation
      no_faults_def)

theorem createTable_twice_witness:
  "createTableInstructions ''requests'' \<noteq> None
   \<and> fst (createTable no_faults ''requests'' fresh_state) = ReturnsPromise (Inr ())
   \<and> ''requests'' \<in> set (table_names (snd (createTable no_faults ''requests'' fresh_state)))
   \<and> fst (createTable no_faults ''requests'' (snd (createTable no_faults ''requests'' fresh_state))) =
       ReturnsPromise (Inr ())
   \<and> db (snd (createTable no_faults ''requests'' (snd (createTable no_faults ''requests'' fresh_state)))) =
       db (snd (createTable no_faults ''requests'' fresh_state))"
proof -
  have a: "createTableInstructions ''requests'' \<noteq> None" by (simp add: registered_simps)
  show ?thesis
    using createTable_twice [OF a, of no_faults fresh_state no_faults] a createTable_requests_fresh(1)
    by simp
qed

text \<open>
  \<open>createTable\<close> passes a failed statement on to its caller: on a database without
  \<open>requests\<close>, the call for \<open>notifications\<close> is rejected, because the foreign key cannot
  be added.
\<close>

theorem createTable_notifications_rejected:
  "createTableInstructions ''notifications'' \<noteq> None
   \<and> fst (createTable no_faults ''notifications'' fresh_state) =
       ReturnsPromise (Inl (FkTargetMissing ''notifications'' ''requests''))"
  by (simp add: createTable_registered [OF registered_simps(3)] registered_simps(3)
      createTable_evaluation no_faults_def)

section \<open>Closing connections\<close>






section \<open>Atomic batch inserts\<close>


lemma db_add_rows_emit [simp]: "db (add_rows t rows (emit e s)) = db (add_rows t rows s)"
  by (simp add: add_rows_def emit_def)

lemma trace_add_rows [simp]: "trace (add_rows t rows s) = trace s"
  by (simp add: add_rows_def)

lemma table_names_add_rows [simp]: "table_names (add_rows t rows s) = table_names s"
  by (simp add: add_rows_def table_names_def)












end
